theory Spec2Isabelle
  imports Main "HOL-Library.Multiset" "HOL-Library.Sublist" "HOL-Library.Product_Lexorder"
begin

section \<open>fcopy: approximate path resolution and the ingestion pipeline\<close>

text \<open>
  A shallow embedding of the Go packages \<open>utils\<close>, \<open>config\<close>, \<open>finder\<close> and
  \<open>processor\<close> of fcopy. Go strings are byte sequences: \<open>len\<close> counts bytes and
  \<open>s[i]\<close> reads a byte, so a Go string is a \<^typ>\<open>string\<close> (a list of 8-bit
  characters). Go's \<open>int\<close> is modelled by \<^typ>\<open>int\<close>: every integer below is a length,
  a difference of two lengths, a depth or a counter of handled files, far inside the 64-bit
  range. Loop counters that only index slices are \<^typ>\<open>nat\<close>.
\<close>

subsection \<open>Package utils: the similarity scorer\<close>

text \<open>
  \<open>Min\<close> of three integers (named \<open>Min3\<close> here, \<open>Min\<close> being the minimum of a finite
  set in HOL) and \<open>Abs\<close>.
\<close>

definition Min3 :: "int \<Rightarrow> int \<Rightarrow> int \<Rightarrow> int" where
  "Min3 a b c = (if a < b then (if a < c then a else c) else (if b < c then b else c))"

definition Abs :: "int \<Rightarrow> int" where
  "Abs n = (if n < 0 then - n else n)"

text \<open>
  \<open>CalculateSimilarity\<close> keeps two work vectors \<open>v0\<close> and \<open>v1\<close> of length
  \<open>len(s2)+1\<close>. Its four loops are the four recursive functions below, each with the
  loop counter as an argument: \<open>init_row\<close> is the loop of lines 41-43, \<open>fill_row\<close> the
  inner loop of lines 51-57, \<open>copy_row\<close> the copy loop of lines 60-62 and \<open>rows\<close> the
  outer loop of lines 46-63. Every index the loops read or write is inside the vectors,
  so no access of the source can panic.
\<close>

function init_row :: "nat \<Rightarrow> nat \<Rightarrow> int list \<Rightarrow> int list" where
  "init_row n i v0 = (if i \<le> n then init_row n (i + 1) (v0[i := int i]) else v0)"
  by pat_completeness auto
termination
  by (relation "measure (\<lambda>(n, i, v0). n + 1 - i)") auto

function fill_row :: "string \<Rightarrow> string \<Rightarrow> nat \<Rightarrow> nat \<Rightarrow> int list \<Rightarrow> int list \<Rightarrow> int list" where
  "fill_row s1 s2 i j v0 v1 =
     (if j < length s2 then
        let cost = (if s1 ! i = s2 ! j then 0 else 1)
        in fill_row s1 s2 i (j + 1) v0
             (v1[j + 1 := Min3 (v1 ! j + 1) (v0 ! (j + 1) + 1) (v0 ! j + cost)])
      else v1)"
  by pat_completeness auto
termination
  by (relation "measure (\<lambda>(s1, s2, i, j, v0, v1). length s2 - j)") auto

function copy_row :: "nat \<Rightarrow> nat \<Rightarrow> int list \<Rightarrow> int list \<Rightarrow> int list" where
  "copy_row n j v0 v1 = (if j \<le> n then copy_row n (j + 1) (v0[j := v1 ! j]) v1 else v0)"
  by pat_completeness auto
termination
  by (relation "measure (\<lambda>(n, j, v0, v1). n + 1 - j)") auto

function rows :: "string \<Rightarrow> string \<Rightarrow> nat \<Rightarrow> int list \<Rightarrow> int list \<Rightarrow> int list \<times> int list" where
  "rows s1 s2 i v0 v1 =
     (if i < length s1 then
        let v1a = v1[0 := int i + 1];
            v1b = fill_row s1 s2 i 0 v0 v1a;
            v0' = copy_row (length s2) 0 v0 v1b
        in rows s1 s2 (i + 1) v0' v1b
      else (v0, v1))"
  by pat_completeness auto
termination
  by (relation "measure (\<lambda>(s1, s2, i, v0, v1). length s1 - i)") auto

definition CalculateSimilarity :: "string \<Rightarrow> string \<Rightarrow> int" where
  "CalculateSimilarity s1 s2 =
     (if length s1 = 0 then int (length s2)
      else if length s2 = 0 then int (length s1)
      else
        let v0 = replicate (length s2 + 1) 0;
            v1 = replicate (length s2 + 1) 0;
            v0 = init_row (length s2) 0 v0;
            (v0, v1) = rows s1 s2 0 v0 v1
        in v1 ! length s2)"

text \<open>
  The reference: the edit distance by its textbook recursion, and the single-character
  edits it counts. \<open>edit1 xs ys\<close> holds when \<open>ys\<close> is \<open>xs\<close> after one insertion, one
  deletion or one substitution of a character at any position; \<open>edits n xs ys\<close> when
  \<open>n\<close> such edits in a row turn \<open>xs\<close> into \<open>ys\<close>.
\<close>

fun levenshtein :: "'a list \<Rightarrow> 'a list \<Rightarrow> nat" where
  "levenshtein [] ys = length ys"
| "levenshtein xs [] = length xs"
| "levenshtein (x # xs) (y # ys) =
     min (levenshtein (x # xs) ys + 1)
       (min (levenshtein xs (y # ys) + 1)
            (levenshtein xs ys + (if x = y then 0 else 1)))"

inductive edit1 :: "'a list \<Rightarrow> 'a list \<Rightarrow> bool" where
  insertion: "edit1 (u @ v) (u @ c # v)"
| deletion: "edit1 (u @ c # v) (u @ v)"
| substitution: "edit1 (u @ c # v) (u @ d # v)"

inductive edits :: "nat \<Rightarrow> 'a list \<Rightarrow> 'a list \<Rightarrow> bool" where
  edits_refl: "edits 0 xs xs"
| edits_step: "edits n xs ys \<Longrightarrow> edit1 ys zs \<Longrightarrow> edits (Suc n) xs zs"

text \<open>
  The table the two vectors run over: entry \<open>(i, j)\<close> is the distance between the first
  \<open>i\<close> bytes of \<open>s1\<close> and the first \<open>j\<close> bytes of \<open>s2\<close>.
\<close>

definition dist_prefix :: "string \<Rightarrow> string \<Rightarrow> nat \<Rightarrow> nat \<Rightarrow> int" where
  "dist_prefix s1 s2 i j = int (levenshtein (rev (take i s1)) (rev (take j s2)))"

definition dist_row :: "string \<Rightarrow> string \<Rightarrow> nat \<Rightarrow> int list" where
  "dist_row s1 s2 i = map (dist_prefix s1 s2 i) [0..<length s2 + 1]"

subsection \<open>Package config\<close>

text \<open>
  The configuration, with the fields the finder and the processor read. \<open>Timeout\<close> only
  sets the deadline of the run's context in \<open>main\<close>, and \<open>Debug\<close>, \<open>Logger\<close> and
  \<open>LogFile\<close> are read by none of the functions below.
\<close>

record Config =
  MaxFileSize :: int
  Workers :: int
  Verbose :: bool
  MaxMatches :: int
  SearchDepth :: int
  AutoSelect :: bool
  SearchHidden :: bool
  NoIgnore :: bool

text \<open>
  The three lookup tables are Go maps from string to bool. A map is kept as its list of
  entries, so that the \<open>range\<close> loop of \<open>ShouldIgnore\<close> can run over the keys; reading
  an absent key gives \<open>false\<close>, as in Go.
\<close>

definition lookup :: "(string \<times> bool) list \<Rightarrow> string \<Rightarrow> bool" where
  "lookup m k = (case map_of m k of Some b \<Rightarrow> b | None \<Rightarrow> False)"

definition IgnoreDirs :: "(string \<times> bool) list" where
  "IgnoreDirs =
     [(''node_modules'', True), (''.git'', True), (''.svn'', True), (''.hg'', True),
      (''dist'', True), (''build'', True), (''out'', True), (''target'', True),
      (''bin'', True), (''obj'', True), (''.idea'', True), (''.vscode'', True),
      (''.vs'', True), (''vendor'', True), (''bower_components'', True),
      (''jspm_packages'', True), (''tmp'', True), (''temp'', True), (''logs'', True),
      (''log'', True), (''.npm'', True), (''coverage'', True), (''.next'', True),
      (''.nuxt'', True), (''.cache'', True), (''.parcel-cache'', True)]"

definition IgnoreExts :: "(string \<times> bool) list" where
  "IgnoreExts =
     [(''.log'', True), (''.lock'', True), (''.min.js'', True), (''.min.css'', True),
      (''.map'', True), (''.DS_Store'', True), (''Thumbs.db'', True),
      (''.gitignore'', True), (''.gitattributes'', True), (''.eslintrc'', True),
      (''.prettierrc'', True)]"

definition BinaryExts :: "(string \<times> bool) list" where
  "BinaryExts =
     [(''.bin'', True), (''.exe'', True), (''.dll'', True), (''.so'', True),
      (''.dylib'', True), (''.jpg'', True), (''.jpeg'', True), (''.png'', True),
      (''.gif'', True), (''.bmp'', True), (''.zip'', True), (''.tar'', True),
      (''.gz'', True), (''.rar'', True), (''.7z'', True), (''.pdf'', True),
      (''.doc'', True), (''.docx'', True), (''.xls'', True), (''.xlsx'', True)]"

subsection \<open>What the code takes from the Go library and the operating system\<close>

text \<open>
  Four library functions are short enough to write out, for the separator \<open>/\<close>:
  \<open>filepath.Base\<close> (drop trailing separators, keep what follows the last separator,
  \<open>.\<close> for the empty path and \<open>/\<close> for a path of separators only), \<open>filepath.Ext\<close>
  (scan back from the end to the last dot of the last element), \<open>strings.Contains\<close>
  and \<open>strings.HasSuffix\<close>.
\<close>

definition Base :: "string \<Rightarrow> string" where
  "Base path =
     (if path = [] then ''.''
      else
        let stripped = rev (dropWhile (\<lambda>c. c = CHR ''/'') (rev path));
            last_elem = rev (takeWhile (\<lambda>c. c \<noteq> CHR ''/'') (rev stripped))
        in if last_elem = [] then ''/'' else last_elem)"

fun ext_scan :: "string \<Rightarrow> string \<Rightarrow> string" where
  "ext_scan [] acc = []"
| "ext_scan (c # cs) acc =
     (if c = CHR ''/'' then []
      else if c = CHR ''.'' then c # acc
      else ext_scan cs (c # acc))"

definition Ext :: "string \<Rightarrow> string" where
  "Ext path = ext_scan (rev path) []"

fun Contains :: "string \<Rightarrow> string \<Rightarrow> bool" where
  "Contains [] substr = (substr = [])"
| "Contains (c # s) substr = (prefix substr (c # s) \<or> Contains s substr)"

definition HasSuffix :: "string \<Rightarrow> string \<Rightarrow> bool" where
  "HasSuffix s suff = suffix suff s"

text \<open>
  Errors are values. \<open>NotExist\<close> is an error for which \<open>os.IsNotExist\<close> holds,
  \<open>IOError\<close> any other error of the operating system; \<open>Canceled\<close> and
  \<open>DeadlineExceeded\<close> are the two values \<open>ctx.Err()\<close> can have.
\<close>

datatype error =
    NotExist
  | IOError
  | FileTooLarge int
  | SkippedBinaryFile
  | Canceled
  | DeadlineExceeded

record FileInfo =
  Size :: int
  info_IsDir :: bool

record DirEntry =
  entry_Name :: string
  entry_IsDir :: bool

text \<open>
  The tree \<open>filepath.WalkDir\<close> walks: a node carries the name of its entry; \<open>BadDir\<close>
  is a directory whose listing \<open>os.ReadDir\<close> fails.
\<close>

datatype fsnode =
    File string
  | Dir string "fsnode list"
  | BadDir string

record FuzzyMatch =
  Path :: string
  Name :: string
  Score :: int
  IsDir :: bool
  Depth :: int
  MatchType :: string

text \<open>
  Everything else the code calls outside this repository is a field of the environment
  \<open>Env\<close>, and the theorems hold for every environment:
  \<^item> \<open>ToLower\<close>, \<open>TrimSpace\<close>: \<open>strings.ToLower\<close>, \<open>strings.TrimSpace\<close>;
  \<^item> \<open>ScanInt\<close>: \<open>fmt.Sscanf(input, "%d", &selection)\<close>, \<open>None\<close> when it returns an error;
  \<^item> \<open>Join\<close>, \<open>DirOf\<close>: \<open>filepath.Join\<close> of two elements and \<open>filepath.Dir\<close>;
  \<^item> \<open>SortSlice\<close>: \<open>sort.Slice\<close> with the given \<open>less\<close>;
  \<^item> \<open>Stat\<close>, \<open>ReadDir\<close>, \<open>ReadFile\<close>: \<open>os.Stat\<close>, \<open>os.ReadDir\<close> (\<open>None\<close> when it
    returns an error) and \<open>os.ReadFile\<close>;
  \<^item> \<open>WalkTree\<close>: the tree \<open>filepath.WalkDir\<close> finds under a root, \<open>None\<close> when
    \<open>os.Lstat\<close> of the root fails;
  \<^item> \<open>DoneBeforeRead\<close>, \<open>DoneBeforeSend\<close>, \<open>DoneBeforeEnqueue\<close>: what the three
    \<open>select\<close> statements on \<open>ctx.Done()\<close> observe while the given path is handled:
    \<open>Some e\<close> when the branch \<open>ctx.Done()\<close> is taken, with \<open>e\<close> the value of
    \<open>ctx.Err()\<close>, and \<open>None\<close> when the other branch is taken.
\<close>

record Env =
  ToLower :: "string \<Rightarrow> string"
  TrimSpace :: "string \<Rightarrow> string"
  ScanInt :: "string \<Rightarrow> int option"
  Join :: "string \<Rightarrow> string \<Rightarrow> string"
  DirOf :: "string \<Rightarrow> string"
  SortSlice :: "(FuzzyMatch \<Rightarrow> FuzzyMatch \<Rightarrow> bool) \<Rightarrow> FuzzyMatch list \<Rightarrow> FuzzyMatch list"
  Stat :: "string \<Rightarrow> error + FileInfo"
  ReadDir :: "string \<Rightarrow> DirEntry list option"
  ReadFile :: "string \<Rightarrow> error + string"
  WalkTree :: "string \<Rightarrow> fsnode option"
  DoneBeforeRead :: "string \<Rightarrow> error option"
  DoneBeforeSend :: "string \<Rightarrow> error option"
  DoneBeforeEnqueue :: "string \<Rightarrow> error option"

subsection \<open>Package finder\<close>

definition ShouldIgnore :: "string \<Rightarrow> bool \<Rightarrow> Config \<Rightarrow> bool" where
  "ShouldIgnore path isDir cfg =
     (if NoIgnore cfg then False
      else
        let fileName = Base path
        in if \<not> SearchHidden cfg \<and> length fileName > 1 \<and> fileName ! 0 = CHR ''.'' then True
           else if isDir then lookup IgnoreDirs fileName
           else
             let ext = Ext fileName
             in if lookup IgnoreExts ext then True
                else if list_ex (\<lambda>pattern. HasSuffix fileName pattern) (map fst IgnoreExts)
                  then True
                else False)"

text \<open>
  \<open>FindRecursiveMatches\<close>, lines 159-256. \<open>direct_match\<close> is the body of its first loop
  (lines 179-237) for one entry: the matches the iteration appends, none or one.
  The second loop descends into the subdirectories. The recursion ends because the depth
  grows by one in each call and a call beyond \<open>SearchDepth\<close> returns at once.
\<close>

definition direct_match ::
  "Env \<Rightarrow> string \<Rightarrow> string \<Rightarrow> int \<Rightarrow> Config \<Rightarrow> DirEntry \<Rightarrow> FuzzyMatch list" where
  "direct_match env dir targetName currentDepth cfg entry =
     (let targetLower = ToLower env targetName;
          name = entry_Name entry;
          path = Join env dir name
      in if ShouldIgnore path (entry_IsDir entry) cfg then []
         else
           let nameLower = ToLower env name
           in if nameLower = targetLower then
                [\<lparr>Path = path, Name = name, Score = 0, IsDir = entry_IsDir entry,
                  Depth = currentDepth, MatchType = ''exact''\<rparr>]
              else if Contains nameLower targetLower \<or> Contains targetLower nameLower then
                let scoreFactor = Abs (int (length nameLower) - int (length targetLower))
                in [\<lparr>Path = path, Name = name, Score = 1 + scoreFactor,
                     IsDir = entry_IsDir entry, Depth = currentDepth,
                     MatchType = ''substring''\<rparr>]
              else
                let score = CalculateSimilarity nameLower targetLower;
                    threshold = int (length targetName) * 2 div 3;
                    threshold = (if threshold < 3 then 3 else threshold)
                in if score \<le> threshold then
                     [\<lparr>Path = path, Name = name, Score = score + 2,
                       IsDir = entry_IsDir entry, Depth = currentDepth,
                       MatchType = ''fuzzy''\<rparr>]
                   else [])"

function FindRecursiveMatches ::
  "Env \<Rightarrow> string \<Rightarrow> string \<Rightarrow> int \<Rightarrow> Config \<Rightarrow> FuzzyMatch list" where
  "FindRecursiveMatches env dir targetName currentDepth cfg =
     (if currentDepth > SearchDepth cfg then []
      else
        case ReadDir env dir of
          None \<Rightarrow> []
        | Some entries \<Rightarrow>
            concat (map (direct_match env dir targetName currentDepth cfg) entries)
            @ concat (map (\<lambda>entry.
                if entry_IsDir entry then
                  let subdir = Join env dir (entry_Name entry)
                  in if ShouldIgnore subdir True cfg then []
                     else FindRecursiveMatches env subdir targetName (currentDepth + 1) cfg
                else []) entries))"
  by pat_completeness auto
termination
  by (relation "measure (\<lambda>(env, dir, targetName, currentDepth, cfg).
        nat (SearchDepth cfg + 1 - currentDepth))") auto

declare FindRecursiveMatches.simps [simp del]

text \<open>
  \<open>FuzzyFindPath\<close>, lines 59-156. \<open>match_less\<close> is the \<open>less\<close> function given to
  \<open>sort.Slice\<close>. The console is the lines still to be read from standard input and the
  messages printed so far; a message keeps the arguments of its \<open>Printf\<close>, not the text.
\<close>

definition match_less :: "FuzzyMatch \<Rightarrow> FuzzyMatch \<Rightarrow> bool" where
  "match_less a b = (if Score a \<noteq> Score b then Score a < Score b else Depth a < Depth b)"

datatype message =
    CannotFindDirectory string
  | NoMatchesFound string string
  | AutoSelected string string
  | DidYouMean string
  | Candidate int FuzzyMatch
  | NoneOfThese
  | EnterSelection int
  | ErrorReadingInput
  | InvalidSelection

record console =
  stdin :: "string list"
  stdout :: "message list"

definition print :: "message list \<Rightarrow> console \<Rightarrow> console" where
  "print ms io = io\<lparr>stdout := stdout io @ ms\<rparr>"

text \<open>
  The loop of lines 133-155. \<open>ReadString\<close> fails when standard input is at its end; the
  loop then returns, so it ends on every finite input.
\<close>

fun read_selection ::
  "Env \<Rightarrow> FuzzyMatch list \<Rightarrow> int \<Rightarrow> string list \<Rightarrow> message list
    \<Rightarrow> (string \<times> bool) \<times> console" where
  "read_selection env matches displayCount [] out =
     (([], False), \<lparr>stdin = [], stdout = out @ [EnterSelection displayCount, ErrorReadingInput]\<rparr>)"
| "read_selection env matches displayCount (line # rest) out =
     (let out = out @ [EnterSelection displayCount];
          input = TrimSpace env line
      in case ScanInt env input of
           None \<Rightarrow> read_selection env matches displayCount rest (out @ [InvalidSelection])
         | Some selection \<Rightarrow>
             if selection < 0 \<or> selection > displayCount then
               read_selection env matches displayCount rest (out @ [InvalidSelection])
             else if selection = 0 then (([], False), \<lparr>stdin = rest, stdout = out\<rparr>)
             else ((Path (matches ! nat (selection - 1)), True), \<lparr>stdin = rest, stdout = out\<rparr>))"

text \<open>
  Lines 81-155, what \<open>FuzzyFindPath\<close> does once \<open>dir\<close> and \<open>targetName\<close> are fixed:
  search, rank, and either select the best match or ask.
\<close>

definition find_in ::
  "Env \<Rightarrow> string \<Rightarrow> string \<Rightarrow> string \<Rightarrow> Config \<Rightarrow> console \<Rightarrow> (string \<times> bool) \<times> console" where
  "find_in env approximatePath dir targetName cfg io =
     (let matches = FindRecursiveMatches env dir targetName 0 cfg
      in if length matches = 0 then (([], False), print [NoMatchesFound targetName dir] io)
         else
           let matches = SortSlice env match_less matches;
               displayCount = int (length matches);
               displayCount = (if displayCount > MaxMatches cfg then MaxMatches cfg
                               else displayCount);
               threshold = int (length targetName) div 4;
               threshold = (if threshold < 2 then 2 else threshold)
           in if AutoSelect cfg \<and> length matches > 0 \<and> Score (matches ! 0) \<le> threshold then
                ((Path (matches ! 0), True),
                 print [AutoSelected approximatePath (Path (matches ! 0))] io)
              else
                read_selection env matches displayCount (stdin io)
                  (stdout io @ [DidYouMean approximatePath]
                   @ map (\<lambda>i. Candidate (int i + 1) (matches ! i)) [0..<nat displayCount]
                   @ [NoneOfThese]))"

text \<open>
  \<open>FuzzyFindPath\<close> calls itself on the directory part of the path when that directory
  does not exist. Nothing in the code bounds this recursion: it ends because
  \<open>filepath.Dir\<close> shortens a path down to a directory that exists, which is a fact about
  the file system and not about this code. The function is therefore partial: \<open>None\<close>
  stands for a call that does not return.
\<close>

partial_function (option) FuzzyFindPath ::
  "Env \<Rightarrow> string \<Rightarrow> Config \<Rightarrow> console \<Rightarrow> ((string \<times> bool) \<times> console) option" where
  "FuzzyFindPath env approximatePath cfg io =
     (if Contains approximatePath ''/'' then
        (if Stat env (DirOf env approximatePath) = Inl NotExist then
           Option.bind (FuzzyFindPath env (DirOf env approximatePath) cfg io)
             (\<lambda>((resolvedDir, found), io').
                if \<not> found then
                  Some (([], False), print [CannotFindDirectory (DirOf env approximatePath)] io')
                else
                  Some (find_in env approximatePath resolvedDir (Base approximatePath) cfg io'))
         else Some (find_in env approximatePath (DirOf env approximatePath)
                      (Base approximatePath) cfg io))
      else Some (find_in env approximatePath ''.'' approximatePath cfg io))"

subsection \<open>Package processor\<close>

text \<open>
  A content record (its fields are \<open>Path\<close> and \<open>Content\<close> in the source; \<open>Path\<close> is
  already a field of \<open>FuzzyMatch\<close> here). The results channel is the list of the records
  sent on it so far, oldest first.
\<close>

record FileContent =
  file_Path :: string
  file_Content :: string

text \<open>
  \<open>ProcessSingleFile\<close>, lines 54-91. The result is the returned error (\<open>None\<close> for
  \<open>nil\<close>) and the channel after the call. The outer \<open>select\<close> takes its \<open>default\<close>
  branch unless the context is done; the inner one blocks until the record is sent or the
  context is done, and \<open>DoneBeforeSend\<close> says which of the two happened.
\<close>

definition ProcessSingleFile ::
  "Env \<Rightarrow> string \<Rightarrow> FileInfo \<Rightarrow> Config \<Rightarrow> FileContent list
    \<Rightarrow> error option \<times> FileContent list" where
  "ProcessSingleFile env path fileInfo cfg results =
     (if Size fileInfo > MaxFileSize cfg then (Some (FileTooLarge (Size fileInfo)), results)
      else
        let ext = ToLower env (Ext path)
        in if lookup BinaryExts ext then (Some SkippedBinaryFile, results)
           else
             case DoneBeforeRead env path of
               Some e \<Rightarrow> (Some e, results)
             | None \<Rightarrow>
                 (case ReadFile env path of
                    Inl err \<Rightarrow> (Some err, results)
                  | Inr content \<Rightarrow>
                      (case DoneBeforeSend env path of
                         None \<Rightarrow>
                           (None, results @ [\<lparr>file_Path = path, file_Content = content\<rparr>])
                       | Some e \<Rightarrow> (Some e, results))))"

text \<open>
  The state the goroutines of a run share: the results channel, the two atomic counters,
  and the lines printed (a line keeps the arguments of its \<open>Printf\<close>).
\<close>

datatype log =
    ErrorAccessing string error
  | ErrorStating string error
  | ErrorProcessing string error
  | ErrorWalking string error

record run_state =
  results :: "FileContent list"
  processed :: int
  errors :: int
  printed :: "log list"

text \<open>
  One iteration of the worker loop of \<open>ProcessDirectory\<close> (lines 110-128), for the path
  it received from the queue.
\<close>

definition worker_handle :: "Env \<Rightarrow> Config \<Rightarrow> string \<Rightarrow> run_state \<Rightarrow> run_state" where
  "worker_handle env cfg path st =
     (case Stat env path of
        Inl err \<Rightarrow>
          st\<lparr>errors := errors st + 1,
             printed := printed st @ (if Verbose cfg then [ErrorStating path err] else [])\<rparr>
      | Inr fileInfo \<Rightarrow>
          (case ProcessSingleFile env path fileInfo cfg (results st) of
             (Some err, rs) \<Rightarrow>
               st\<lparr>results := rs, errors := errors st + 1,
                  printed := printed st @
                    (if Verbose cfg \<and> err \<noteq> Canceled then [ErrorProcessing path err] else [])\<rparr>
           | (None, rs) \<Rightarrow> st\<lparr>results := rs, processed := processed st + 1\<rparr>))"

text \<open>
  The walk of lines 132-158. \<open>walk_fn\<close> is the function given to \<open>filepath.WalkDir\<close>;
  it returns \<open>nil\<close> (\<open>Proceed\<close>), \<open>filepath.SkipDir\<close> or an error (\<open>Failed\<close>). The
  walker's state is the paths it has sent on the channel \<open>files\<close> and \<open>fileCount\<close>.
  The channel holds 100 paths: with no worker to receive, the send of a further path
  cannot happen, and when the context is never done either, the \<open>select\<close> of lines
  151-155 never returns (\<open>Blocked\<close>).
\<close>

datatype walk_step = Proceed | SkipDir | Failed error | Blocked

record walk_state =
  queue :: "string list"
  fileCount :: int

definition walk_fn ::
  "Env \<Rightarrow> Config \<Rightarrow> string \<Rightarrow> bool \<Rightarrow> error option \<Rightarrow> walk_state
    \<Rightarrow> walk_step \<times> walk_state" where
  "walk_fn env cfg path isDir err w =
     (case err of
        Some e \<Rightarrow> (Failed e, w)
      | None \<Rightarrow>
          if isDir \<and> ShouldIgnore path True cfg then (SkipDir, w)
          else if \<not> isDir then
            (if ShouldIgnore path False cfg then (Proceed, w)
             else
               let w = w\<lparr>fileCount := fileCount w + 1\<rparr>
               in case DoneBeforeEnqueue env path of
                    Some e \<Rightarrow> (Failed e, w)
                  | None \<Rightarrow>
                      if Workers cfg > 0 \<or> length (queue w) < 100
                      then (Proceed, w\<lparr>queue := queue w @ [path]\<rparr>)
                      else (Blocked, w))
          else (Proceed, w))"

text \<open>
  \<open>filepath.WalkDir\<close> of the Go library, on the tree of the environment: the function is
  called on a node before its entries; \<open>SkipDir\<close> from a directory skips its entries;
  a directory that cannot be listed gets a second call, with the error; the first error
  returned ends the walk.
\<close>

fun node_name :: "fsnode \<Rightarrow> string" where
  "node_name (File name) = name"
| "node_name (Dir name entries) = name"
| "node_name (BadDir name) = name"

fun walkDir :: "Env \<Rightarrow> Config \<Rightarrow> string \<Rightarrow> fsnode \<Rightarrow> walk_state \<Rightarrow> walk_step \<times> walk_state"
  and walkDir_entries ::
    "Env \<Rightarrow> Config \<Rightarrow> string \<Rightarrow> fsnode list \<Rightarrow> walk_state \<Rightarrow> walk_step \<times> walk_state" where
  "walkDir env cfg path (File name) w = walk_fn env cfg path False None w"
| "walkDir env cfg path (BadDir name) w =
     (case walk_fn env cfg path True None w of
        (Proceed, w') \<Rightarrow>
          (case walk_fn env cfg path True (Some IOError) w' of
             (SkipDir, w'') \<Rightarrow> (Proceed, w'')
           | r \<Rightarrow> r)
      | (SkipDir, w') \<Rightarrow> (Proceed, w')
      | r \<Rightarrow> r)"
| "walkDir env cfg path (Dir name entries) w =
     (case walk_fn env cfg path True None w of
        (Proceed, w') \<Rightarrow> walkDir_entries env cfg path entries w'
      | (SkipDir, w') \<Rightarrow> (Proceed, w')
      | r \<Rightarrow> r)"
| "walkDir_entries env cfg path [] w = (Proceed, w)"
| "walkDir_entries env cfg path (d1 # ds) w =
     (case walkDir env cfg (Join env path (node_name d1)) d1 w of
        (Proceed, w') \<Rightarrow> walkDir_entries env cfg path ds w'
      | (SkipDir, w') \<Rightarrow> (Proceed, w')
      | r \<Rightarrow> r)"

definition WalkDir :: "Env \<Rightarrow> Config \<Rightarrow> string \<Rightarrow> walk_state \<Rightarrow> walk_step \<times> walk_state" where
  "WalkDir env cfg root w =
     (case (case WalkTree env root of
              None \<Rightarrow> walk_fn env cfg root False (Some IOError) w
            | Some node \<Rightarrow> walkDir env cfg root node w) of
        (SkipDir, w') \<Rightarrow> (Proceed, w')
      | r \<Rightarrow> r)"

text \<open>
  \<open>ProcessDirectory\<close>, lines 94-168. The workers and the walker run concurrently; the
  model takes them one after the other: the walk first, then, when there is a worker,
  one \<open>worker_handle\<close> for each path sent, in the order sent. This is one of the possible
  schedules. The counters are only ever added to, so their final values are the same in
  every schedule; the order of the records on the results channel is not. The call
  returns once the walk has returned and every worker has left its loop; \<open>None\<close> stands
  for a call that does not return.
\<close>

definition ProcessDirectory ::
  "Env \<Rightarrow> string \<Rightarrow> Config \<Rightarrow> run_state \<Rightarrow> run_state option" where
  "ProcessDirectory env dirPath cfg st =
     (case WalkDir env cfg dirPath \<lparr>queue = [], fileCount = 0\<rparr> of
        (Blocked, w) \<Rightarrow> None
      | (r, w) \<Rightarrow>
          let st = (if Workers cfg > 0 then fold (worker_handle env cfg) (queue w) st else st)
          in case r of
               Failed err \<Rightarrow>
                 if err \<noteq> Canceled then
                   Some (st\<lparr>errors := errors st + 1,
                            printed := printed st @ [ErrorWalking dirPath err]\<rparr>)
                 else Some st
             | _ \<Rightarrow> Some st)"

text \<open>\<open>ProcessPath\<close>, lines 22-51.\<close>

definition ProcessPath :: "Env \<Rightarrow> string \<Rightarrow> Config \<Rightarrow> run_state \<Rightarrow> run_state option" where
  "ProcessPath env path cfg st =
     (case Stat env path of
        Inl err \<Rightarrow>
          Some (st\<lparr>errors := errors st + 1, printed := printed st @ [ErrorAccessing path err]\<rparr>)
      | Inr fileInfo \<Rightarrow>
          if info_IsDir fileInfo then ProcessDirectory env path cfg st
          else
            (case ProcessSingleFile env path fileInfo cfg (results st) of
               (Some err, rs) \<Rightarrow>
                 Some (st\<lparr>results := rs, errors := errors st + 1,
                          printed := printed st @
                            (if Verbose cfg then [ErrorProcessing path err] else [])\<rparr>)
             | (None, rs) \<Rightarrow> Some (st\<lparr>results := rs, processed := processed st + 1\<rparr>)))"

text \<open>
  A pipeline run: \<open>main\<close> starts one \<open>ProcessPath\<close> for each resolved path, on the shared
  channel and counters, and waits for all of them (lines 85-97 of \<open>cmd/fcopy/main.go\<close>).
  Again the calls are taken one after the other.
\<close>

fun process_paths :: "Env \<Rightarrow> Config \<Rightarrow> string list \<Rightarrow> run_state \<Rightarrow> run_state option" where
  "process_paths env cfg [] st = Some st"
| "process_paths env cfg (p # ps) st =
     (case ProcessPath env p cfg st of
        None \<Rightarrow> None
      | Some st' \<Rightarrow> process_paths env cfg ps st')"

subsection \<open>Notions the properties are stated with\<close>

text \<open>The sorted \<open>matches\<close> of line 90, for a search directory and a target name.\<close>

definition ranking :: "Env \<Rightarrow> string \<Rightarrow> string \<Rightarrow> Config \<Rightarrow> FuzzyMatch list" where
  "ranking env dir targetName cfg =
     SortSlice env match_less (FindRecursiveMatches env dir targetName 0 cfg)"

text \<open>
  An ascending arrangement of candidates: a list with the same elements as often, in
  which no element is \<open>less\<close> than one before it. This is all \<open>sort.Slice\<close> promises;
  it is not stable.
\<close>

definition ascending :: "FuzzyMatch list \<Rightarrow> FuzzyMatch list \<Rightarrow> bool" where
  "ascending out inp = (mset out = mset inp \<and> sorted_wrt (\<lambda>a b. \<not> match_less b a) out)"

definition rank_key :: "FuzzyMatch \<Rightarrow> int \<times> int" where
  "rank_key m = (Score m, Depth m)"

text \<open>The interactive prompt of line 134 is among the messages.\<close>

fun is_prompt :: "message \<Rightarrow> bool" where
  "is_prompt (EnterSelection n) = True"
| "is_prompt m = False"

definition prompted :: "message list \<Rightarrow> bool" where
  "prompted ms = list_ex is_prompt ms"

text \<open>
  What lines 61-79 of \<open>FuzzyFindPath\<close> leave: the directory to search, the target name,
  and the console (the recursive call on the directory part may have used it).
\<close>

definition searches_in ::
  "Env \<Rightarrow> string \<Rightarrow> Config \<Rightarrow> console \<Rightarrow> string \<Rightarrow> string \<Rightarrow> console \<Rightarrow> bool" where
  "searches_in env approximatePath cfg io dir targetName io' =
     (if Contains approximatePath ''/'' then
        targetName = Base approximatePath \<and>
        (if Stat env (DirOf env approximatePath) = Inl NotExist then
           FuzzyFindPath env (DirOf env approximatePath) cfg io = Some ((dir, True), io')
         else dir = DirOf env approximatePath \<and> io' = io)
      else dir = ''.'' \<and> targetName = approximatePath \<and> io' = io)"

text \<open>A run that is not cancelled: no \<open>select\<close> ever finds the context done.\<close>

definition never_done :: "Env \<Rightarrow> bool" where
  "never_done env =
     (\<forall>p. DoneBeforeRead env p = None \<and> DoneBeforeSend env p = None
          \<and> DoneBeforeEnqueue env p = None)"

text \<open>
  The walk \<open>ProcessDirectory\<close> makes, and the kinds of top-level path \<open>ProcessPath\<close>
  tells apart. The eligible paths of a run are the paths its walks sent to the workers.
\<close>

definition walk_of :: "Env \<Rightarrow> Config \<Rightarrow> string \<Rightarrow> walk_step \<times> walk_state" where
  "walk_of env cfg dirPath = WalkDir env cfg dirPath \<lparr>queue = [], fileCount = 0\<rparr>"

definition is_directory :: "Env \<Rightarrow> string \<Rightarrow> bool" where
  "is_directory env p = (case Stat env p of Inl err \<Rightarrow> False | Inr fi \<Rightarrow> info_IsDir fi)"

definition is_single_file :: "Env \<Rightarrow> string \<Rightarrow> bool" where
  "is_single_file env p = (case Stat env p of Inl err \<Rightarrow> False | Inr fi \<Rightarrow> \<not> info_IsDir fi)"

definition stat_fails :: "Env \<Rightarrow> string \<Rightarrow> bool" where
  "stat_fails env p = (case Stat env p of Inl err \<Rightarrow> True | Inr fi \<Rightarrow> False)"

fun is_failure :: "walk_step \<Rightarrow> bool" where
  "is_failure (Failed e) = True"
| "is_failure r = False"

definition walk_fails :: "Env \<Rightarrow> Config \<Rightarrow> string \<Rightarrow> bool" where
  "walk_fails env cfg p = (is_directory env p \<and> is_failure (fst (walk_of env cfg p)))"

definition eligible_paths :: "Env \<Rightarrow> Config \<Rightarrow> string list \<Rightarrow> int" where
  "eligible_paths env cfg paths =
     sum_list (map (\<lambda>p. int (length (queue (snd (walk_of env cfg p)))))
                 (filter (is_directory env) paths))"

definition single_file_invocations :: "Env \<Rightarrow> string list \<Rightarrow> int" where
  "single_file_invocations env paths = int (length (filter (is_single_file env) paths))"

definition failed_stats :: "Env \<Rightarrow> string list \<Rightarrow> int" where
  "failed_stats env paths = int (length (filter (stat_fails env) paths))"

definition failed_walks :: "Env \<Rightarrow> Config \<Rightarrow> string list \<Rightarrow> int" where
  "failed_walks env cfg paths = int (length (filter (walk_fails env cfg) paths))"

subsection \<open>An example environment\<close>

text \<open>
  A small environment on which the theorems are run. Its library functions are simple
  stand-ins that agree with Go's on the strings of the example: ASCII lower-casing,
  trimming of blanks and line ends, unsigned decimal numbers, joining a clean directory
  and a name.
\<close>

definition ascii_lower :: "string \<Rightarrow> string" where
  "ascii_lower s =
     map (\<lambda>c. if 65 \<le> (of_char c :: nat) \<and> (of_char c :: nat) \<le> 90
               then char_of ((of_char c :: nat) + 32) else c) s"

definition is_blank :: "char \<Rightarrow> bool" where
  "is_blank c = (c = CHR '' '' \<or> c = CHR 0x0A \<or> c = CHR 0x0D \<or> c = CHR 0x09)"

definition trim_blanks :: "string \<Rightarrow> string" where
  "trim_blanks s = rev (dropWhile is_blank (rev (dropWhile is_blank s)))"

definition is_digit :: "char \<Rightarrow> bool" where
  "is_digit c = (48 \<le> (of_char c :: nat) \<and> (of_char c :: nat) \<le> 57)"

definition scan_decimal :: "string \<Rightarrow> int option" where
  "scan_decimal s =
     (if s \<noteq> [] \<and> list_all is_digit s
      then Some (foldl (\<lambda>n c. 10 * n + (int (of_char c) - 48)) 0 s)
      else None)"

definition join_simple :: "string \<Rightarrow> string \<Rightarrow> string" where
  "join_simple dir name = (if dir = ''.'' then name else dir @ ''/'' @ name)"

definition dir_simple :: "string \<Rightarrow> string" where
  "dir_simple path =
     (let d = rev (drop 1 (dropWhile (\<lambda>c. c \<noteq> CHR ''/'') (rev path)))
      in if d = [] then ''.'' else d)"

text \<open>
  For a slice of at most 12 elements \<open>sort.Slice\<close> runs the insertion sort
  \<open>insertionSortLessFunc(data, 0, n)\<close> of Go's package \<open>sort\<close>: for \<open>i\<close> from 1 to
  \<open>n - 1\<close>, the element at \<open>i\<close> is swapped with the one before it while it is \<open>less\<close>.
  Longer slices are sorted by another algorithm, which this definition does not follow;
  it is used on the short lists of the example only.
\<close>

function insertion_inner :: "('a \<Rightarrow> 'a \<Rightarrow> bool) \<Rightarrow> nat \<Rightarrow> 'a list \<Rightarrow> 'a list" where
  "insertion_inner lessFn j data =
     (if j > 0 \<and> lessFn (data ! j) (data ! (j - 1))
      then insertion_inner lessFn (j - 1) (data[j := data ! (j - 1), j - 1 := data ! j])
      else data)"
  by pat_completeness auto
termination
  by (relation "measure (\<lambda>(lessFn, j, data). j)") auto

function insertion_outer :: "('a \<Rightarrow> 'a \<Rightarrow> bool) \<Rightarrow> nat \<Rightarrow> nat \<Rightarrow> 'a list \<Rightarrow> 'a list" where
  "insertion_outer lessFn b i data =
     (if i < b then insertion_outer lessFn b (i + 1) (insertion_inner lessFn i data) else data)"
  by pat_completeness auto
termination
  by (relation "measure (\<lambda>(lessFn, b, i, data). b - i)") auto

definition insertionSortLessFunc :: "('a \<Rightarrow> 'a \<Rightarrow> bool) \<Rightarrow> 'a list \<Rightarrow> 'a list" where
  "insertionSortLessFunc lessFn data = insertion_outer lessFn (length data) 1 data"

text \<open>
  The example tree: \<open>config.json\<close>, \<open>node_modules/index.js\<close>, \<open>src/main.go\<close>,
  \<open>src/photo.png\<close>, and the two directories \<open>a\<close> and \<open>b\<close> with a \<open>notes.txt\<close>
  each. Beside it there are a file \<open>big.txt\<close> of one byte more than a mebibyte and a
  directory \<open>locked\<close> that cannot be listed.
\<close>

definition example_listing :: "string \<Rightarrow> DirEntry list option" where
  "example_listing dir =
     (if dir = ''.'' then
        Some [\<lparr>entry_Name = ''a'', entry_IsDir = True\<rparr>,
              \<lparr>entry_Name = ''b'', entry_IsDir = True\<rparr>,
              \<lparr>entry_Name = ''config.json'', entry_IsDir = False\<rparr>,
              \<lparr>entry_Name = ''node_modules'', entry_IsDir = True\<rparr>,
              \<lparr>entry_Name = ''src'', entry_IsDir = True\<rparr>]
      else if dir = ''a'' \<or> dir = ''b'' then
        Some [\<lparr>entry_Name = ''notes.txt'', entry_IsDir = False\<rparr>]
      else if dir = ''node_modules'' then
        Some [\<lparr>entry_Name = ''index.js'', entry_IsDir = False\<rparr>]
      else if dir = ''src'' then
        Some [\<lparr>entry_Name = ''main.go'', entry_IsDir = False\<rparr>,
              \<lparr>entry_Name = ''photo.png'', entry_IsDir = False\<rparr>]
      else None)"

definition example_tree :: fsnode where
  "example_tree =
     Dir ''.'' [Dir ''a'' [File ''notes.txt''], Dir ''b'' [File ''notes.txt''],
                File ''config.json'', Dir ''node_modules'' [File ''index.js''],
                Dir ''src'' [File ''main.go'', File ''photo.png'']]"

definition example_stat :: "string \<Rightarrow> error + FileInfo" where
  "example_stat path =
     (if path \<in> set [''.'', ''a'', ''b'', ''node_modules'', ''src'', ''locked'']
        then Inr \<lparr>Size = 4096, info_IsDir = True\<rparr>
      else if path \<in> set [''a/notes.txt'', ''b/notes.txt'', ''config.json'',
                           ''node_modules/index.js'', ''src/main.go'', ''src/photo.png'']
        then Inr \<lparr>Size = 5, info_IsDir = False\<rparr>
      else if path = ''big.txt'' then Inr \<lparr>Size = 1048577, info_IsDir = False\<rparr>
      else Inl NotExist)"

definition example_env :: Env where
  "example_env =
     \<lparr>ToLower = ascii_lower, TrimSpace = trim_blanks, ScanInt = scan_decimal,
      Join = join_simple, DirOf = dir_simple, SortSlice = insertionSortLessFunc,
      Stat = example_stat, ReadDir = example_listing,
      ReadFile = (\<lambda>path. Inr ''hello''),
      WalkTree = (\<lambda>root. if root = ''.'' then Some example_tree
                          else if root = ''a'' then Some (Dir ''a'' [File ''notes.txt''])
                          else if root = ''locked'' then Some (BadDir ''locked'')
                          else None),
      DoneBeforeRead = (\<lambda>path. None), DoneBeforeSend = (\<lambda>path. None),
      DoneBeforeEnqueue = (\<lambda>path. None)\<rparr>"

definition example_cfg :: Config where
  "example_cfg =
     \<lparr>MaxFileSize = 1048576, Workers = 10, Verbose = False, MaxMatches = 15,
      SearchDepth = 5, AutoSelect = True, SearchHidden = False, NoIgnore = False\<rparr>"

text \<open>The same run with the deadline passing before any record can be sent.\<close>

definition expired_env :: Env where
  "expired_env = example_env\<lparr>DoneBeforeSend := (\<lambda>path. Some DeadlineExceeded)\<rparr>"

text \<open>Two candidates with the same name in two directories of the same depth.\<close>

definition notes_a :: FuzzyMatch where
  "notes_a = \<lparr>Path = ''a/notes.txt'', Name = ''notes.txt'', Score = 0, IsDir = False,
              Depth = 1, MatchType = ''exact''\<rparr>"

definition notes_b :: FuzzyMatch where
  "notes_b = \<lparr>Path = ''b/notes.txt'', Name = ''notes.txt'', Score = 0, IsDir = False,
              Depth = 1, MatchType = ''exact''\<rparr>"

definition main_go :: FuzzyMatch where
  "main_go = \<lparr>Path = ''src/main.go'', Name = ''main.go'', Score = 4, IsDir = False,
              Depth = 1, MatchType = ''fuzzy''\<rparr>"

text \<open>A run starts with an empty channel and both counters at zero.\<close>

definition fresh_run :: run_state where
  "fresh_run = \<lparr>results = [], processed = 0, errors = 0, printed = []\<rparr>"

definition silent_console :: console where
  "silent_console = \<lparr>stdin = [], stdout = []\<rparr>"

section \<open>The similarity scorer computes the edit distance\<close>

subsection \<open>The reference distance and single-character edits\<close>

lemma Min3_min: "Min3 a b c = min a (min b c)"
  by (simp add: Min3_def min_def)

lemma levenshtein_Nil2 [simp]: "levenshtein xs [] = length xs"
  by (cases xs) simp_all

lemma levenshtein_same: "levenshtein xs xs = 0"
  by (induction xs) simp_all

lemma levenshtein_commute: "levenshtein xs ys = levenshtein ys xs"
  by (induction xs ys rule: levenshtein.induct) (simp_all add: min.commute min.left_commute eq_commute)

lemma levenshtein_le_max: "levenshtein xs ys \<le> max (length xs) (length ys)"
  by (induction xs ys rule: levenshtein.induct) (auto simp: min_le_iff_disj)

lemma levenshtein_Cons_le: "levenshtein xs (y # ys) \<le> levenshtein xs ys + 1"
  by (cases xs) (simp_all add: min_le_iff_disj)

lemma levenshtein_Cons_le2: "levenshtein (x # xs) ys \<le> levenshtein xs ys + 1"
  by (cases ys) (simp_all add: min_le_iff_disj)

lemma levenshtein_drop_head: "levenshtein xs ys \<le> levenshtein xs (c # ys) + 1"
proof (induction xs)
  case Nil
  show ?case by simp
next
  case (Cons x xs)
  have a: "levenshtein (x # xs) ys \<le> levenshtein xs ys + 1"
    by (rule levenshtein_Cons_le2)
  show ?case using Cons a by (simp add: min_def)
qed

lemma levenshtein_subst_head: "levenshtein xs (d # ys) \<le> levenshtein xs (c # ys) + 1"
proof (induction xs)
  case Nil
  show ?case by simp
next
  case (Cons x xs)
  show ?case using Cons by (simp add: min_def)
qed

lemma edit1_length: "edit1 ys zs \<Longrightarrow> length zs \<le> length ys + 1"
  by (induction rule: edit1.induct) simp_all

lemma min3_shift:
  fixes a b c :: nat
  shows "a \<le> a' + 1 \<Longrightarrow> b \<le> b' + 1 \<Longrightarrow> c \<le> c' + 1 \<Longrightarrow>
    min a (min b c) \<le> min a' (min b' c') + 1"
  by (simp add: min_def)

lemma levenshtein_context:
  assumes "\<And>xs. levenshtein xs zs \<le> levenshtein xs ys + 1"
  shows "levenshtein xs (c # zs) \<le> levenshtein xs (c # ys) + 1"
proof (induction xs)
  case Nil
  have "levenshtein [] zs \<le> levenshtein [] ys + 1" by (rule assms)
  then show ?case by simp
next
  case (Cons x xs)
  have a: "levenshtein (x # xs) zs + 1 \<le> levenshtein (x # xs) ys + 1 + 1"
    using assms [of "x # xs"] by simp
  have b: "levenshtein xs zs + (if x = c then 0 else 1)
      \<le> levenshtein xs ys + (if x = c then 0 else 1) + 1"
    using assms [of xs] by simp
  have c: "levenshtein xs (c # zs) + 1 \<le> levenshtein xs (c # ys) + 1 + 1"
    using Cons by simp
  show ?case unfolding levenshtein.simps by (rule min3_shift [OF a c b])
qed

lemma levenshtein_prefix_context:
  assumes "\<And>xs. levenshtein xs zs \<le> levenshtein xs ys + 1"
  shows "levenshtein xs (u @ zs) \<le> levenshtein xs (u @ ys) + 1"
proof (induction u arbitrary: xs)
  case Nil
  show ?case using assms by simp
next
  case (Cons c u)
  show ?case using levenshtein_context [of "u @ zs" "u @ ys" xs c] Cons by simp
qed

lemma levenshtein_edit1: "edit1 ys zs \<Longrightarrow> levenshtein xs zs \<le> levenshtein xs ys + 1"
proof (induction rule: edit1.induct)
  case (insertion u v c)
  show ?case by (rule levenshtein_prefix_context) (rule levenshtein_Cons_le)
next
  case (deletion u c v)
  show ?case by (rule levenshtein_prefix_context) (rule levenshtein_drop_head)
next
  case (substitution u c v d)
  show ?case by (rule levenshtein_prefix_context) (rule levenshtein_subst_head)
qed

lemma levenshtein_lower: "edits n xs ys \<Longrightarrow> levenshtein xs ys \<le> n"
proof (induction rule: edits.induct)
  case (edits_refl xs)
  show ?case by (simp add: levenshtein_same)
next
  case (edits_step n xs ys zs)
  then show ?case using levenshtein_edit1 [of ys zs xs] by simp
qed

lemma edit1_Cons: "edit1 ys zs \<Longrightarrow> edit1 (c # ys) (c # zs)"
proof (induction rule: edit1.induct)
  case (insertion u v d)
  show ?case using edit1.insertion [of "c # u" v d] by simp
next
  case (deletion u d v)
  show ?case using edit1.deletion [of "c # u" d v] by simp
next
  case (substitution u d v e)
  show ?case using edit1.substitution [of "c # u" d v e] by simp
qed

lemma edits_Cons: "edits n ys zs \<Longrightarrow> edits n (c # ys) (c # zs)"
  by (induction rule: edits.induct) (auto intro: edits.intros edit1_Cons)

lemma edits_first:
  assumes "edits n ys zs" and "edit1 xs ys"
  shows "edits (Suc n) xs zs"
  using assms
proof (induction n ys zs rule: edits.induct)
  case (edits_refl ys)
  then show ?case using edits.edits_step [OF edits.edits_refl] by blast
next
  case (edits_step n ys zs ws)
  then show ?case using edits.edits_step by blast
qed

lemma edits_insert_all: "edits (length ys) [] ys"
proof (induction ys)
  case Nil
  show ?case by (simp add: edits.edits_refl)
next
  case (Cons y ys)
  have "edit1 [] [y]" using edit1.insertion [of "[]" "[]" y] by simp
  moreover have "edits (length ys) [y] (y # ys)" using Cons by (rule edits_Cons)
  ultimately show ?case using edits_first by fastforce
qed

lemma edits_delete_all: "edits (length xs) xs []"
proof (induction xs)
  case Nil
  show ?case by (simp add: edits.edits_refl)
next
  case (Cons x xs)
  have "edit1 (x # xs) xs" using edit1.deletion [of "[]" x xs] by simp
  then show ?case using edits_first [OF Cons] by simp
qed

lemma levenshtein_reachable: "edits (levenshtein xs ys) xs ys"
proof (induction xs ys rule: levenshtein.induct)
  case (1 ys)
  show ?case by (simp add: edits_insert_all)
next
  case (2 x xs)
  show ?case using edits_delete_all [of "x # xs"] by simp
next
  case (3 x xs y ys)
  have ins: "edits (Suc (levenshtein (x # xs) ys)) (x # xs) (y # ys)"
    using edits.edits_step [OF "3.IH"(1) edit1.insertion [of "[]" ys y, simplified]] by simp
  have del: "edits (Suc (levenshtein xs (y # ys))) (x # xs) (y # ys)"
    using edits_first [OF "3.IH"(2)] edit1.deletion [of "[]" x xs] by simp
  have keep: "edits (levenshtein xs ys) (x # xs) (x # ys)"
    using "3.IH"(3) by (rule edits_Cons)
  have sub: "edits (Suc (levenshtein xs ys)) (x # xs) (y # ys)"
    using edits.edits_step [OF keep edit1.substitution [of "[]" x ys y, simplified]] by simp
  show ?case using ins del keep sub by (auto simp: min_def)
qed

lemma edit1_rev: "edit1 ys zs \<Longrightarrow> edit1 (rev ys) (rev zs)"
proof (induction rule: edit1.induct)
  case (insertion u v c)
  show ?case using edit1.insertion [of "rev v" "rev u" c] by simp
next
  case (deletion u c v)
  show ?case using edit1.deletion [of "rev v" c "rev u"] by simp
next
  case (substitution u c v d)
  show ?case using edit1.substitution [of "rev v" c "rev u" d] by simp
qed

lemma edits_rev: "edits n xs ys \<Longrightarrow> edits n (rev xs) (rev ys)"
  by (induction rule: edits.induct) (auto intro: edits.intros edit1_rev)

lemma levenshtein_rev_le: "levenshtein (rev xs) (rev ys) \<le> levenshtein xs ys"
  by (rule levenshtein_lower) (rule edits_rev, rule levenshtein_reachable)

lemma levenshtein_rev: "levenshtein (rev xs) (rev ys) = levenshtein xs ys"
  using levenshtein_rev_le [of xs ys] levenshtein_rev_le [of "rev xs" "rev ys"] by simp

subsection \<open>The two rolling rows hold two consecutive rows of the table\<close>

lemma dist_prefix_0_left: "j \<le> length s2 \<Longrightarrow> dist_prefix s1 s2 0 j = int j"
  by (simp add: dist_prefix_def)

lemma dist_prefix_0_right: "i \<le> length s1 \<Longrightarrow> dist_prefix s1 s2 i 0 = int i"
  by (simp add: dist_prefix_def)

lemma dist_prefix_step:
  assumes "i < length s1" and "j < length s2"
  shows "dist_prefix s1 s2 (Suc i) (Suc j) =
    Min3 (dist_prefix s1 s2 (Suc i) j + 1) (dist_prefix s1 s2 i (Suc j) + 1)
      (dist_prefix s1 s2 i j + (if s1 ! i = s2 ! j then 0 else 1))"
proof -
  have a: "rev (take (Suc i) s1) = s1 ! i # rev (take i s1)"
    using assms(1) by (simp add: take_Suc_conv_app_nth)
  have b: "rev (take (Suc j) s2) = s2 ! j # rev (take j s2)"
    using assms(2) by (simp add: take_Suc_conv_app_nth)
  show ?thesis
    unfolding dist_prefix_def a b Min3_min levenshtein.simps
    unfolding a [symmetric] b [symmetric]
    by (simp add: min_def)
qed

lemma length_init_row: "length (init_row n i v0) = length v0"
  by (induction n i v0 rule: init_row.induct) (subst init_row.simps, simp)

lemma nth_init_row:
  "length v0 = n + 1 \<Longrightarrow> \<forall>k<i. v0 ! k = int k \<Longrightarrow> k \<le> n \<Longrightarrow> init_row n i v0 ! k = int k"
proof (induction n i v0 rule: init_row.induct)
  case (1 n i v0)
  show ?case
  proof (cases "i \<le> n")
    case True
    have "\<forall>k<i + 1. v0[i := int i] ! k = int k"
      using "1.prems" True by (auto simp: nth_list_update)
    then have "init_row n (i + 1) (v0[i := int i]) ! k = int k"
      using "1.IH" [OF True] "1.prems" by simp
    then show ?thesis using True by (subst init_row.simps) simp
  next
    case False
    then show ?thesis using "1.prems" by (subst init_row.simps) simp
  qed
qed

lemma init_row_dist_row:
  "init_row (length s2) 0 (replicate (length s2 + 1) 0) = dist_row s1 s2 0"
  by (rule nth_equalityI)
     (simp_all add: length_init_row dist_row_def nth_init_row dist_prefix_0_left
        del: upt_Suc init_row.simps)

lemma length_fill_row: "length (fill_row s1 s2 i j v0 v1) = length v1"
  by (induction s1 s2 i j v0 v1 rule: fill_row.induct)
     (subst fill_row.simps, simp add: Let_def)

lemma nth_fill_row:
  assumes "i < length s1" and "length v1 = length s2 + 1"
    and "v0 = dist_row s1 s2 i"
    and "\<forall>k\<le>j. v1 ! k = dist_prefix s1 s2 (Suc i) k"
    and "j \<le> length s2" and "k \<le> length s2"
  shows "fill_row s1 s2 i j v0 v1 ! k = dist_prefix s1 s2 (Suc i) k"
  using assms
proof (induction s1 s2 i j v0 v1 rule: fill_row.induct)
  case (1 s1 s2 i j v0 v1)
  show ?case
  proof (cases "j < length s2")
    case True
    define c :: int where "c = (if s1 ! i = s2 ! j then 0 else 1)"
    define v1' where "v1' = v1[j + 1 := Min3 (v1 ! j + 1) (v0 ! (j + 1) + 1) (v0 ! j + c)]"
    have v0j: "v0 ! j = dist_prefix s1 s2 i j" and v0j1: "v0 ! Suc j = dist_prefix s1 s2 i (Suc j)"
      using "1.prems"(3) True by (simp_all add: dist_row_def nth_append del: upt_Suc)
    have v1j: "v1 ! j = dist_prefix s1 s2 (Suc i) j"
      using "1.prems"(4) by simp
    have new: "v1' ! (j + 1) = dist_prefix s1 s2 (Suc i) (Suc j)"
      using "1.prems"(1,2) True
      by (simp add: v1'_def c_def v0j v0j1 v1j dist_prefix_step)
    have inv: "\<forall>k\<le>j + 1. v1' ! k = dist_prefix s1 s2 (Suc i) k"
    proof (intro allI impI)
      fix k assume "k \<le> j + 1"
      show "v1' ! k = dist_prefix s1 s2 (Suc i) k"
      proof (cases "k = j + 1")
        case True
        then show ?thesis using new by simp
      next
        case False
        then have "k \<le> j" using \<open>k \<le> j + 1\<close> by simp
        then show ?thesis using "1.prems"(4) False by (simp add: v1'_def)
      qed
    qed
    have "fill_row s1 s2 i (j + 1) v0 v1' ! k = dist_prefix s1 s2 (Suc i) k"
      using "1.IH" [OF True refl "1.prems"(1) _ "1.prems"(3) _ _ "1.prems"(6)]
        inv True "1.prems"(2) by (simp add: v1'_def c_def)
    then show ?thesis using True
      by (subst fill_row.simps) (simp add: Let_def v1'_def c_def)
  next
    case False
    then have "j = length s2" using "1.prems"(5) by simp
    then show ?thesis using "1.prems"(4,6) False by (subst fill_row.simps) simp
  qed
qed

lemma length_copy_row: "length (copy_row n j v0 v1) = length v0"
  by (induction n j v0 v1 rule: copy_row.induct) (subst copy_row.simps, simp)

lemma nth_copy_row:
  "length v0 = n + 1 \<Longrightarrow> \<forall>k<j. v0 ! k = v1 ! k \<Longrightarrow> k \<le> n \<Longrightarrow> copy_row n j v0 v1 ! k = v1 ! k"
proof (induction n j v0 v1 rule: copy_row.induct)
  case (1 n j v0 v1)
  show ?case
  proof (cases "j \<le> n")
    case True
    have "\<forall>k<j + 1. v0[j := v1 ! j] ! k = v1 ! k"
      using "1.prems" True by (auto simp: nth_list_update)
    then have "copy_row n (j + 1) (v0[j := v1 ! j]) v1 ! k = v1 ! k"
      using "1.IH" [OF True] "1.prems" by simp
    then show ?thesis using True by (subst copy_row.simps) simp
  next
    case False
    then show ?thesis using "1.prems" by (subst copy_row.simps) simp
  qed
qed

lemma copy_row_eq:
  "length v0 = n + 1 \<Longrightarrow> length v1 = n + 1 \<Longrightarrow> copy_row n 0 v0 v1 = v1"
  by (rule nth_equalityI) (simp_all add: length_copy_row nth_copy_row del: copy_row.simps)

lemma fill_row_dist_row:
  assumes "i < length s1" and "length v1 = length s2 + 1" and "v0 = dist_row s1 s2 i"
  shows "fill_row s1 s2 i 0 v0 (v1[0 := int i + 1]) = dist_row s1 s2 (Suc i)"
proof (rule nth_equalityI)
  show "length (fill_row s1 s2 i 0 v0 (v1[0 := int i + 1])) = length (dist_row s1 s2 (Suc i))"
    using assms(2) by (simp add: length_fill_row dist_row_def del: fill_row.simps)
next
  fix k assume "k < length (fill_row s1 s2 i 0 v0 (v1[0 := int i + 1]))"
  then have k: "k \<le> length s2"
    using assms(2) by (simp add: length_fill_row del: fill_row.simps)
  have first: "\<forall>k\<le>0. v1[0 := int i + 1] ! k = dist_prefix s1 s2 (Suc i) k"
    using assms(1,2) by (simp add: dist_prefix_0_right)
  have "fill_row s1 s2 i 0 v0 (v1[0 := int i + 1]) ! k = dist_prefix s1 s2 (Suc i) k"
    using nth_fill_row [OF assms(1) _ assms(3) first _ k] assms(2) by simp
  then show "fill_row s1 s2 i 0 v0 (v1[0 := int i + 1]) ! k = dist_row s1 s2 (Suc i) ! k"
    using k by (simp add: dist_row_def nth_append del: upt_Suc fill_row.simps)
qed

lemma rows_dist_row:
  assumes "i \<le> length s1" and "length v1 = length s2 + 1" and "v0 = dist_row s1 s2 i"
    and "0 < i \<longrightarrow> v1 = dist_row s1 s2 i" and "0 < length s1"
  shows "snd (rows s1 s2 i v0 v1) = dist_row s1 s2 (length s1)"
  using assms
proof (induction s1 s2 i v0 v1 rule: rows.induct)
  case (1 s1 s2 i v0 v1)
  show ?case
  proof (cases "i < length s1")
    case True
    define v1b where "v1b = fill_row s1 s2 i 0 v0 (v1[0 := int i + 1])"
    define v0' where "v0' = copy_row (length s2) 0 v0 v1b"
    have b: "v1b = dist_row s1 s2 (Suc i)"
      unfolding v1b_def using True "1.prems"(2,3) by (rule fill_row_dist_row)
    have a: "v0' = v1b"
      unfolding v0'_def using "1.prems"(3) b
      by (intro copy_row_eq) (simp_all add: dist_row_def)
    have "snd (rows s1 s2 (i + 1) v0' v1b) = dist_row s1 s2 (length s1)"
      using "1.IH" [OF True refl refl refl, folded v1b_def, folded v0'_def] True a b "1.prems"(5)
      by (simp add: dist_row_def)
    then show ?thesis using True
      by (subst rows.simps) (simp add: Let_def v1b_def v0'_def)
  next
    case False
    then have "i = length s1" using "1.prems"(1) by simp
    then show ?thesis using "1.prems"(4,5) False by (subst rows.simps) simp
  qed
qed

lemma CalculateSimilarity_levenshtein:
  "CalculateSimilarity s1 s2 = int (levenshtein s1 s2)"
proof (cases "s1 = [] \<or> s2 = []")
  case True
  then show ?thesis by (auto simp: CalculateSimilarity_def)
next
  case False
  have "snd (rows s1 s2 0 (dist_row s1 s2 0) (replicate (length s2 + 1) 0))
      = dist_row s1 s2 (length s1)"
    using False by (intro rows_dist_row) simp_all
  then have "snd (rows s1 s2 0 (dist_row s1 s2 0) (replicate (length s2 + 1) 0)) ! length s2
      = int (levenshtein s1 s2)"
    by (simp add: dist_row_def dist_prefix_def nth_append levenshtein_rev del: upt_Suc)
  then show ?thesis
    unfolding CalculateSimilarity_def Let_def init_row_dist_row [of s2 s1]
    using False by (simp add: split_beta del: rows.simps)
qed

lemma CalculateSimilarity_nonneg: "0 \<le> CalculateSimilarity s1 s2"
  by (simp add: CalculateSimilarity_levenshtein)

section \<open>The fuzzy resolver\<close>

subsection \<open>Candidates come from the first loop\<close>

lemma Contains_sublist: "Contains s substr = sublist substr s"
  by (induction s) (simp_all add: sublist_Cons_right)

lemma direct_match_kinds:
  assumes "m \<in> set (direct_match env dir targetName currentDepth cfg entry)"
  shows "(MatchType m = ''exact'' \<and> Score m = 0)
       \<or> (MatchType m = ''substring'' \<and> 1 \<le> Score m)
       \<or> (MatchType m = ''fuzzy'' \<and> 2 \<le> Score m)"
  using assms CalculateSimilarity_nonneg [of "ToLower env (entry_Name entry)" "ToLower env targetName"]
  by (auto simp: direct_match_def Let_def Abs_def split: if_splits)

lemma FindRecursiveMatches_from_direct_match:
  "m \<in> set (FindRecursiveMatches env dir targetName currentDepth cfg) \<Longrightarrow>
   \<exists>dir' depth' entry. m \<in> set (direct_match env dir' targetName depth' cfg entry)"
proof (induction env dir targetName currentDepth cfg rule: FindRecursiveMatches.induct)
  case (1 env dir targetName currentDepth cfg)
  show ?case
  proof (cases "currentDepth > SearchDepth cfg")
    case True
    then show ?thesis using "1.prems" by (simp add: FindRecursiveMatches.simps [of env dir])
  next
    case False
    show ?thesis
    proof (cases "ReadDir env dir")
      case None
      then show ?thesis using "1.prems" False
        by (simp add: FindRecursiveMatches.simps [of env dir])
    next
      case (Some entries)
      have unfolded: "FindRecursiveMatches env dir targetName currentDepth cfg =
          concat (map (direct_match env dir targetName currentDepth cfg) entries)
          @ concat (map (\<lambda>entry.
              if entry_IsDir entry then
                let subdir = Join env dir (entry_Name entry)
                in if ShouldIgnore subdir True cfg then []
                   else FindRecursiveMatches env subdir targetName (currentDepth + 1) cfg
              else []) entries)"
        using False Some
        by (subst FindRecursiveMatches.simps) simp
      from "1.prems" [unfolded unfolded]
      consider (direct) entry where "entry \<in> set entries"
          "m \<in> set (direct_match env dir targetName currentDepth cfg entry)"
        | (sub) entry where "entry \<in> set entries" "entry_IsDir entry"
          "\<not> ShouldIgnore (Join env dir (entry_Name entry)) True cfg"
          "m \<in> set (FindRecursiveMatches env (Join env dir (entry_Name entry)) targetName
                      (currentDepth + 1) cfg)"
        by (auto simp: Let_def split: if_splits)
      then show ?thesis
      proof cases
        case direct
        then show ?thesis by blast
      next
        case sub
        then show ?thesis using "1.IH" [OF False Some sub(1,2) refl sub(3,4)] by blast
      qed
    qed
  qed
qed

lemma direct_match_in_FindRecursiveMatches:
  assumes "ReadDir env dir = Some entries" and "entry \<in> set entries"
    and "currentDepth \<le> SearchDepth cfg"
  shows "set (direct_match env dir targetName currentDepth cfg entry)
    \<subseteq> set (FindRecursiveMatches env dir targetName currentDepth cfg)"
  using assms by (subst FindRecursiveMatches.simps) auto

subsection \<open>Selecting or asking\<close>

lemma read_selection_prompts:
  "\<exists>rest. stdout (snd (read_selection env ms dc lines out)) = out @ EnterSelection dc # rest"
proof (induction lines arbitrary: out)
  case Nil
  show ?case by simp
next
  case (Cons line lines)
  obtain rest where rest:
    "stdout (snd (read_selection env ms dc lines (out @ [EnterSelection dc] @ [InvalidSelection])))
      = (out @ [EnterSelection dc] @ [InvalidSelection]) @ EnterSelection dc # rest"
    using Cons [of "out @ [EnterSelection dc] @ [InvalidSelection]"] by blast
  show ?case
  proof (cases "ScanInt env (TrimSpace env line)")
    case None
    then show ?thesis using rest by (simp add: Let_def)
  next
    case (Some selection)
    then show ?thesis using rest by (simp add: Let_def)
  qed
qed

lemma prompted_append_prompt: "prompted (xs @ EnterSelection n # ys)"
  by (simp add: prompted_def)

lemma find_in_auto:
  assumes "AutoSelect cfg" and "FindRecursiveMatches env dir targetName 0 cfg \<noteq> []"
    and "ranking env dir targetName cfg \<noteq> []"
    and "Score (ranking env dir targetName cfg ! 0) \<le> max 2 (int (length targetName) div 4)"
  shows "find_in env approximatePath dir targetName cfg io =
    ((Path (ranking env dir targetName cfg ! 0), True),
     print [AutoSelected approximatePath (Path (ranking env dir targetName cfg ! 0))] io)"
  using assms by (simp add: find_in_def Let_def ranking_def max_def split: if_splits)

lemma find_in_ask:
  assumes "FindRecursiveMatches env dir targetName 0 cfg \<noteq> []"
    and "\<not> Score (ranking env dir targetName cfg ! 0) \<le> max 2 (int (length targetName) div 4)"
  shows "prompted (drop (length (stdout io))
            (stdout (snd (find_in env approximatePath dir targetName cfg io))))"
proof -
  define dc where "dc = (if int (length (ranking env dir targetName cfg)) > MaxMatches cfg
      then MaxMatches cfg else int (length (ranking env dir targetName cfg)))"
  define shown where "shown = [DidYouMean approximatePath]
      @ map (\<lambda>i. Candidate (int i + 1) (ranking env dir targetName cfg ! i)) [0..<nat dc]
      @ [NoneOfThese]"
  have "find_in env approximatePath dir targetName cfg io =
      read_selection env (ranking env dir targetName cfg) dc (stdin io) (stdout io @ shown)"
    using assms
    by (simp add: find_in_def Let_def ranking_def max_def dc_def shown_def split: if_splits)
  moreover obtain rest where
    "stdout (snd (read_selection env (ranking env dir targetName cfg) dc (stdin io)
        (stdout io @ shown))) = (stdout io @ shown) @ EnterSelection dc # rest"
    using read_selection_prompts by blast
  ultimately have "drop (length (stdout io))
      (stdout (snd (find_in env approximatePath dir targetName cfg io)))
      = shown @ EnterSelection dc # rest"
    by simp
  then show ?thesis by (simp only: prompted_append_prompt)
qed

lemma FuzzyFindPath_searches_in:
  assumes "searches_in env approximatePath cfg io dir targetName io'"
  shows "FuzzyFindPath env approximatePath cfg io
    = Some (find_in env approximatePath dir targetName cfg io')"
  using assms
  by (subst FuzzyFindPath.simps) (auto simp: searches_in_def split: if_splits)

subsection \<open>Rankings are ordered by score and depth\<close>

lemma match_less_rank_key: "\<not> match_less b a \<longleftrightarrow> rank_key a \<le> rank_key b"
  by (auto simp: match_less_def rank_key_def less_eq_prod_def)

lemma ascending_sorted_keys:
  assumes "ascending out inp"
  shows "sorted (map rank_key out)" and "mset (map rank_key out) = mset (map rank_key inp)"
proof -
  have "sorted_wrt (\<lambda>a b. rank_key a \<le> rank_key b) out"
    using assms by (simp add: ascending_def match_less_rank_key)
  then show "sorted (map rank_key out)"
    by (simp add: sorted_map)
  show "mset (map rank_key out) = mset (map rank_key inp)"
    using assms by (simp add: ascending_def)
qed

subsection \<open>The example environment, evaluated\<close>

lemma example_env_fields:
  "ToLower example_env = ascii_lower" "Join example_env = join_simple"
  "SortSlice example_env = insertionSortLessFunc" "ReadDir example_env = example_listing"
  "Stat example_env = example_stat"
  by (simp_all add: example_env_def)

lemma example_matches_notes:
  "FindRecursiveMatches example_env ''.'' ''notes.txt'' 0 example_cfg = [notes_a, notes_b]"
  by code_simp

lemma example_matches_notes_prefix:
  "FindRecursiveMatches example_env ''.'' ''notes'' 0 example_cfg
   = [notes_a\<lparr>Score := 5, MatchType := ''substring''\<rparr>,
      notes_b\<lparr>Score := 5, MatchType := ''substring''\<rparr>]"
  by code_simp

lemma example_sort_notes:
  "insertionSortLessFunc match_less [notes_a, notes_b] = [notes_a, notes_b]"
  "insertionSortLessFunc match_less [notes_b, notes_a] = [notes_b, notes_a]"
  by code_simp+

lemma example_ranking_notes:
  "ranking example_env ''.'' ''notes.txt'' example_cfg = [notes_a, notes_b]"
  by (simp only: ranking_def example_matches_notes example_env_fields example_sort_notes)

lemma example_ranking_notes_prefix:
  "ranking example_env ''.'' ''notes'' example_cfg
   = [notes_a\<lparr>Score := 5, MatchType := ''substring''\<rparr>,
      notes_b\<lparr>Score := 5, MatchType := ''substring''\<rparr>]"
  unfolding ranking_def example_matches_notes_prefix example_env_fields by code_simp

section \<open>Claims on the similarity scorer\<close>

text \<open>
  Claim C6. For all strings \<open>a\<close>, \<open>b\<close> and \<open>s\<close>: the scorer gives 0 on equal
  arguments, is symmetric, gives the length of \<open>s\<close> against the empty string, and its
  result is the classic unit-cost Levenshtein distance: the value of the textbook
  recursion, which is a number of single-character insertions, deletions and
  substitutions that turns \<open>a\<close> into \<open>b\<close>, and no smaller number of them does.
\<close>

theorem CalculateSimilarity_is_edit_distance:
  "CalculateSimilarity a a = 0
   \<and> CalculateSimilarity a b = CalculateSimilarity b a
   \<and> CalculateSimilarity [] s = int (length s)
   \<and> CalculateSimilarity a b = int (levenshtein a b)
   \<and> edits (levenshtein a b) a b
   \<and> (\<forall>n. edits n a b \<longrightarrow> CalculateSimilarity a b \<le> int n)"
proof -
  have "CalculateSimilarity a a = 0"
    by (simp add: CalculateSimilarity_levenshtein levenshtein_same)
  moreover have "CalculateSimilarity a b = CalculateSimilarity b a"
    using levenshtein_commute [of a b] by (simp add: CalculateSimilarity_levenshtein)
  moreover have "CalculateSimilarity [] s = int (length s)"
    by (simp add: CalculateSimilarity_def)
  moreover have "\<forall>n. edits n a b \<longrightarrow> CalculateSimilarity a b \<le> int n"
    by (simp add: CalculateSimilarity_levenshtein levenshtein_lower)
  ultimately show ?thesis
    using CalculateSimilarity_levenshtein [of a b] levenshtein_reachable [of a b] by blast
qed

theorem CalculateSimilarity_is_edit_distance_witness:
  "edits 1 ''cab'' ''cb''
   \<and> CalculateSimilarity ''cab'' ''cb'' = 1
   \<and> CalculateSimilarity ''cb'' ''cab'' = 1
   \<and> CalculateSimilarity ''cab'' ''cab'' = 0
   \<and> CalculateSimilarity [] ''cab'' = 3"
proof -
  have e: "edits 1 ''cab'' ''cb''"
    using edits_step [OF edits_refl deletion [of "''c''" "CHR ''a''" "''b''"]] by simp
  have "CalculateSimilarity ''cab'' ''cb'' \<le> 1"
    using CalculateSimilarity_is_edit_distance [of "''cab''" "''cb''"] e by fastforce
  moreover have "CalculateSimilarity ''cab'' ''cb'' = int (levenshtein ''cab'' ''cb'')"
    using CalculateSimilarity_is_edit_distance [of "''cab''" "''cb''"] by blast
  moreover have "levenshtein ''cab'' ''cb'' = 1"
    by simp
  moreover have "CalculateSimilarity ''cb'' ''cab'' = CalculateSimilarity ''cab'' ''cb''"
    using CalculateSimilarity_is_edit_distance [of "''cb''" "''cab''"] by blast
  moreover have "CalculateSimilarity ''cab'' ''cab'' = 0"
    using CalculateSimilarity_is_edit_distance [of "''cab''" "''cab''"] by blast
  moreover have "CalculateSimilarity [] ''cab'' = 3"
    using CalculateSimilarity_is_edit_distance [of "[]" "''cab''" "''cab''"] by simp
  ultimately show ?thesis using e by simp
qed

text \<open>
  Claim C10. For all strings \<open>a\<close> and \<open>b\<close> the result of the scorer lies between 0 and
  the length of the longer string.
\<close>

theorem CalculateSimilarity_bounds:
  "0 \<le> CalculateSimilarity a b
   \<and> CalculateSimilarity a b \<le> max (int (length a)) (int (length b))"
proof -
  have "int (levenshtein a b) \<le> int (max (length a) (length b))"
    using levenshtein_le_max [of a b] by (simp only: of_nat_le_iff)
  then show ?thesis
    by (simp add: CalculateSimilarity_levenshtein)
qed

section \<open>Claims on the fuzzy resolver\<close>

text \<open>
  Claim C7. With the override flag \<open>NoIgnore\<close> set, \<open>ShouldIgnore\<close> returns false for
  every path and every \<open>isDir\<close>.
\<close>

theorem ShouldIgnore_override:
  "NoIgnore cfg \<Longrightarrow> ShouldIgnore path isDir cfg = False"
  by (simp add: ShouldIgnore_def)

theorem ShouldIgnore_override_witness:
  "NoIgnore (example_cfg\<lparr>NoIgnore := True\<rparr>)
   \<and> ShouldIgnore ''node_modules'' True (example_cfg\<lparr>NoIgnore := True\<rparr>) = False
   \<and> ShouldIgnore ''node_modules'' True example_cfg = True"
proof -
  have "NoIgnore (example_cfg\<lparr>NoIgnore := True\<rparr>)" by simp
  then have "ShouldIgnore ''node_modules'' True (example_cfg\<lparr>NoIgnore := True\<rparr>) = False"
    by (rule ShouldIgnore_override)
  moreover have "ShouldIgnore ''node_modules'' True example_cfg = True"
    by (simp add: ShouldIgnore_def example_cfg_def Base_def lookup_def IgnoreDirs_def)
  ultimately show ?thesis by simp
qed

text \<open>
  Claim C4. An entry that passes the ignore check, whose lower-cased name is neither equal
  to the lower-cased target nor contains it nor is contained in it, is a candidate exactly
  when the edit distance of the two lower-cased names is at most
  \<open>max(3, len(targetName) * 2 / 3)\<close>; the candidate then has score distance + 2 and
  type \<open>fuzzy\<close>; otherwise the iteration appends nothing. What the iteration appends is
  part of the result of \<open>FindRecursiveMatches\<close> for a listed entry within the depth
  bound.
\<close>

theorem fuzzy_threshold:
  assumes "\<not> ShouldIgnore (Join env dir (entry_Name entry)) (entry_IsDir entry) cfg"
    and "ToLower env (entry_Name entry) \<noteq> ToLower env targetName"
    and "\<not> sublist (ToLower env targetName) (ToLower env (entry_Name entry))"
    and "\<not> sublist (ToLower env (entry_Name entry)) (ToLower env targetName)"
  shows "direct_match env dir targetName currentDepth cfg entry =
     (if int (levenshtein (ToLower env (entry_Name entry)) (ToLower env targetName))
           \<le> max 3 (int (length targetName) * 2 div 3)
      then [\<lparr>Path = Join env dir (entry_Name entry), Name = entry_Name entry,
              Score = int (levenshtein (ToLower env (entry_Name entry)) (ToLower env targetName)) + 2,
              IsDir = entry_IsDir entry, Depth = currentDepth, MatchType = ''fuzzy''\<rparr>]
      else [])
   \<and> (\<forall>entries. ReadDir env dir = Some entries \<and> entry \<in> set entries
          \<and> currentDepth \<le> SearchDepth cfg \<longrightarrow>
        set (direct_match env dir targetName currentDepth cfg entry)
          \<subseteq> set (FindRecursiveMatches env dir targetName currentDepth cfg))"
proof -
  have "direct_match env dir targetName currentDepth cfg entry =
     (if int (levenshtein (ToLower env (entry_Name entry)) (ToLower env targetName))
           \<le> max 3 (int (length targetName) * 2 div 3)
      then [\<lparr>Path = Join env dir (entry_Name entry), Name = entry_Name entry,
              Score = int (levenshtein (ToLower env (entry_Name entry)) (ToLower env targetName)) + 2,
              IsDir = entry_IsDir entry, Depth = currentDepth, MatchType = ''fuzzy''\<rparr>]
      else [])"
    using assms
    by (simp add: direct_match_def Let_def Contains_sublist CalculateSimilarity_levenshtein
        max_def)
  then show ?thesis
    using direct_match_in_FindRecursiveMatches [of env dir _ entry currentDepth cfg targetName]
    by blast
qed

theorem fuzzy_threshold_witness:
  "\<not> ShouldIgnore (Join example_env ''src'' ''main.go'') False example_cfg
   \<and> ToLower example_env ''main.go'' \<noteq> ToLower example_env ''Main.c''
   \<and> \<not> sublist (ToLower example_env ''Main.c'') (ToLower example_env ''main.go'')
   \<and> \<not> sublist (ToLower example_env ''main.go'') (ToLower example_env ''Main.c'')
   \<and> direct_match example_env ''src'' ''Main.c'' 1 example_cfg
         \<lparr>entry_Name = ''main.go'', entry_IsDir = False\<rparr>
       = [\<lparr>Path = ''src/main.go'', Name = ''main.go'', Score = 4, IsDir = False, Depth = 1,
           MatchType = ''fuzzy''\<rparr>]
   \<and> direct_match example_env ''src'' ''Main.c'' 1 example_cfg
         \<lparr>entry_Name = ''photo.png'', entry_IsDir = False\<rparr> = []"
proof -
  let ?e = "\<lparr>entry_Name = ''main.go'', entry_IsDir = False\<rparr>"
  let ?f = "\<lparr>entry_Name = ''photo.png'', entry_IsDir = False\<rparr>"
  note lo = example_env_fields(1) and jo = example_env_fields(2)
  have l1: "ascii_lower ''main.go'' = ''main.go''" by code_simp
  have l2: "ascii_lower ''Main.c'' = ''main.c''" by code_simp
  have l3: "ascii_lower ''photo.png'' = ''photo.png''" by code_simp
  have j1: "join_simple ''src'' ''main.go'' = ''src/main.go''" by code_simp
  have a1: "\<not> ShouldIgnore (Join example_env ''src'' (entry_Name ?e)) (entry_IsDir ?e) example_cfg"
    unfolding jo by code_simp
  have a2: "ToLower example_env (entry_Name ?e) \<noteq> ToLower example_env ''Main.c''"
    unfolding lo by (simp add: l1 l2)
  have a3: "\<not> sublist (ToLower example_env ''Main.c'') (ToLower example_env (entry_Name ?e))"
    unfolding lo Contains_sublist [symmetric] by (simp add: l1 l2)
  have a4: "\<not> sublist (ToLower example_env (entry_Name ?e)) (ToLower example_env ''Main.c'')"
    unfolding lo Contains_sublist [symmetric] by (simp add: l1 l2)
  have b1: "\<not> ShouldIgnore (Join example_env ''src'' (entry_Name ?f)) (entry_IsDir ?f) example_cfg"
    unfolding jo by code_simp
  have b2: "ToLower example_env (entry_Name ?f) \<noteq> ToLower example_env ''Main.c''"
    unfolding lo by (simp add: l3 l2)
  have b3: "\<not> sublist (ToLower example_env ''Main.c'') (ToLower example_env (entry_Name ?f))"
    unfolding lo Contains_sublist [symmetric] by (simp add: l3 l2)
  have b4: "\<not> sublist (ToLower example_env (entry_Name ?f)) (ToLower example_env ''Main.c'')"
    unfolding lo Contains_sublist [symmetric] by (simp add: l3 l2)
  have "CalculateSimilarity ''main.go'' ''main.c'' = 2" by code_simp
  then have d1: "int (levenshtein ''main.go'' ''main.c'') = 2"
    by (simp only: CalculateSimilarity_levenshtein)
  have "CalculateSimilarity ''photo.png'' ''main.c'' = 8" by code_simp
  then have d2: "int (levenshtein ''photo.png'' ''main.c'') = 8"
    by (simp only: CalculateSimilarity_levenshtein)
  have "direct_match example_env ''src'' ''Main.c'' 1 example_cfg ?e
       = [\<lparr>Path = ''src/main.go'', Name = ''main.go'', Score = 4, IsDir = False, Depth = 1,
           MatchType = ''fuzzy''\<rparr>]"
    using fuzzy_threshold [OF a1 a2 a3 a4, of 1, THEN conjunct1]
    by (simp add: lo jo l1 l2 d1 j1 del: levenshtein.simps)
  moreover have "direct_match example_env ''src'' ''Main.c'' 1 example_cfg ?f = []"
    using fuzzy_threshold [OF b1 b2 b3 b4, of 1, THEN conjunct1]
    by (simp add: lo l3 l2 d2 del: levenshtein.simps)
  ultimately show ?thesis using a1 a2 a3 a4 by simp
qed

text \<open>
  Claim C8. Every candidate \<open>FindRecursiveMatches\<close> returns with score 0 has type
  \<open>exact\<close>; a candidate of type \<open>substring\<close> or \<open>fuzzy\<close> has a positive score.
\<close>

theorem score_zero_exact:
  assumes "m \<in> set (FindRecursiveMatches env dir targetName currentDepth cfg)"
  shows "(Score m = 0 \<longrightarrow> MatchType m = ''exact'')
       \<and> (MatchType m = ''substring'' \<or> MatchType m = ''fuzzy'' \<longrightarrow> 0 < Score m)"
proof -
  obtain dir' depth' entry where "m \<in> set (direct_match env dir' targetName depth' cfg entry)"
    using FindRecursiveMatches_from_direct_match [OF assms] by blast
  then show ?thesis using direct_match_kinds by fastforce
qed

theorem score_zero_exact_witness:
  "notes_a \<in> set (FindRecursiveMatches example_env ''.'' ''notes.txt'' 0 example_cfg)
   \<and> Score notes_a = 0 \<and> MatchType notes_a = ''exact''"
proof -
  have m: "notes_a \<in> set (FindRecursiveMatches example_env ''.'' ''notes.txt'' 0 example_cfg)"
    by (simp add: example_matches_notes)
  have s: "Score notes_a = 0" by (simp add: notes_a_def)
  have "MatchType notes_a = ''exact''"
    using score_zero_exact [OF m] s by blast
  then show ?thesis using m s by simp
qed

text \<open>
  Claim C5. With auto-select on and a non-empty candidate list, \<open>FuzzyFindPath\<close>
  returns, and it returns the first candidate of the ranking without a prompt and without
  reading standard input exactly when that candidate's score is at most
  \<open>max(2, len(targetName) / 4)\<close>; it prompts exactly when the score is above that
  threshold.
\<close>

theorem auto_select_threshold:
  assumes "searches_in env approximatePath cfg io dir targetName io'"
    and "AutoSelect cfg"
    and "FindRecursiveMatches env dir targetName 0 cfg \<noteq> []"
    and "ranking env dir targetName cfg \<noteq> []"
  shows "\<exists>r. FuzzyFindPath env approximatePath cfg io = Some r
    \<and> ((fst r = (Path (ranking env dir targetName cfg ! 0), True)
         \<and> \<not> prompted (drop (length (stdout io')) (stdout (snd r)))
         \<and> stdin (snd r) = stdin io')
        \<longleftrightarrow> Score (ranking env dir targetName cfg ! 0) \<le> max 2 (int (length targetName) div 4))
    \<and> (prompted (drop (length (stdout io')) (stdout (snd r)))
        \<longleftrightarrow> max 2 (int (length targetName) div 4) < Score (ranking env dir targetName cfg ! 0))"
proof (cases "Score (ranking env dir targetName cfg ! 0) \<le> max 2 (int (length targetName) div 4)")
  case True
  have "find_in env approximatePath dir targetName cfg io' =
    ((Path (ranking env dir targetName cfg ! 0), True),
     print [AutoSelected approximatePath (Path (ranking env dir targetName cfg ! 0))] io')"
    using assms(2,3,4) True by (rule find_in_auto)
  moreover have "\<not> max 2 (int (length targetName) div 4) < Score (ranking env dir targetName cfg ! 0)"
    using True by (simp only: not_less)
  ultimately show ?thesis
    using True FuzzyFindPath_searches_in [OF assms(1)]
    by (auto simp: print_def prompted_def)
next
  case False
  have "prompted (drop (length (stdout io'))
            (stdout (snd (find_in env approximatePath dir targetName cfg io'))))"
    using assms(3) False by (rule find_in_ask)
  moreover have "max 2 (int (length targetName) div 4) < Score (ranking env dir targetName cfg ! 0)"
    using False by (simp only: not_le)
  ultimately show ?thesis
    using False FuzzyFindPath_searches_in [OF assms(1)] by auto
qed

theorem auto_select_threshold_witness:
  "searches_in example_env ''notes.txt'' example_cfg silent_console ''.'' ''notes.txt'' silent_console
   \<and> AutoSelect example_cfg
   \<and> ranking example_env ''.'' ''notes.txt'' example_cfg = [notes_a, notes_b]
   \<and> FuzzyFindPath example_env ''notes.txt'' example_cfg silent_console
       = Some ((''a/notes.txt'', True),
               \<lparr>stdin = [], stdout = [AutoSelected ''notes.txt'' ''a/notes.txt'']\<rparr>)
   \<and> (\<exists>r. FuzzyFindPath example_env ''notes'' example_cfg silent_console = Some r
          \<and> prompted (stdout (snd r)))"
proof -
  have s1: "searches_in example_env ''notes.txt'' example_cfg silent_console ''.'' ''notes.txt''
      silent_console"
    by (simp add: searches_in_def)
  have s2: "searches_in example_env ''notes'' example_cfg silent_console ''.'' ''notes''
      silent_console"
    by (simp add: searches_in_def)
  have a: "AutoSelect example_cfg" by (simp add: example_cfg_def)
  have n1: "FindRecursiveMatches example_env ''.'' ''notes.txt'' 0 example_cfg \<noteq> []"
    by (simp add: example_matches_notes)
  have r1: "ranking example_env ''.'' ''notes.txt'' example_cfg \<noteq> []"
    by (simp add: example_ranking_notes)
  have n2: "FindRecursiveMatches example_env ''.'' ''notes'' 0 example_cfg \<noteq> []"
    by (simp add: example_matches_notes_prefix)
  have r2: "ranking example_env ''.'' ''notes'' example_cfg \<noteq> []"
    by (simp add: example_ranking_notes_prefix)
  obtain r where r: "FuzzyFindPath example_env ''notes.txt'' example_cfg silent_console = Some r"
    "fst r = (''a/notes.txt'', True)" "\<not> prompted (stdout (snd r))" "stdin (snd r) = []"
    using auto_select_threshold [OF s1 a n1 r1]
    by (auto simp: example_ranking_notes notes_a_def silent_console_def)
  obtain q where q: "FuzzyFindPath example_env ''notes'' example_cfg silent_console = Some q"
    "prompted (stdout (snd q))"
    using auto_select_threshold [OF s2 a n2 r2]
    by (auto simp: example_ranking_notes_prefix notes_a_def silent_console_def)
  have "FuzzyFindPath example_env ''notes.txt'' example_cfg silent_console
       = Some ((''a/notes.txt'', True),
               \<lparr>stdin = [], stdout = [AutoSelected ''notes.txt'' ''a/notes.txt'']\<rparr>)"
    using FuzzyFindPath_searches_in [OF s1] find_in_auto [OF a n1 r1, of "''notes.txt''" silent_console]
    by (simp add: example_ranking_notes notes_a_def silent_console_def print_def)
  then show ?thesis using s1 a example_ranking_notes q by blast
qed

text \<open>
  Claim C2, as the code has it. The \<open>less\<close> function compares score and depth only, and
  \<open>sort.Slice\<close> is not stable. For two orders of the same candidates, any two ascending
  arrangements have the same sequence of (score, depth) pairs, and they are the same
  sequence of candidates when no two different candidates agree on both score and depth.
\<close>

theorem ranking_order_independent:
  assumes "mset xs = mset ys" and "ascending xs' xs" and "ascending ys' ys"
  shows "map rank_key xs' = map rank_key ys'
    \<and> (inj_on rank_key (set xs) \<longrightarrow> xs' = ys')"
proof -
  have keys: "mset (map rank_key xs') = mset (map rank_key ys')"
    using ascending_sorted_keys(2) [OF assms(2)] ascending_sorted_keys(2) [OF assms(3)] assms(1)
    by simp
  have "sort (map rank_key xs') = map rank_key ys'"
    using keys ascending_sorted_keys(1) [OF assms(3)]
    by (intro properties_for_sort) simp_all
  moreover have "sort (map rank_key xs') = map rank_key xs'"
    using ascending_sorted_keys(1) [OF assms(2)] by (rule sorted_sort_id)
  ultimately have eq: "map rank_key xs' = map rank_key ys'" by simp
  have sets: "set xs' = set xs" "set ys' = set xs"
    using assms by (auto simp: ascending_def dest: mset_eq_setD)
  have "xs' = ys'" if "inj_on rank_key (set xs)"
    using that eq sets inj_on_map_eq_map [of rank_key xs' ys'] by simp
  then show ?thesis using eq by blast
qed

theorem ranking_order_independent_witness:
  "mset [notes_a, notes_b] = mset [notes_b, notes_a]
   \<and> ascending [notes_a, notes_b] [notes_a, notes_b]
   \<and> ascending [notes_b, notes_a] [notes_b, notes_a]
   \<and> map rank_key [notes_a, notes_b] = map rank_key [notes_b, notes_a]
   \<and> mset [main_go, notes_a] = mset [notes_a, main_go]
   \<and> ascending (SortSlice example_env match_less [main_go, notes_a]) [main_go, notes_a]
   \<and> ascending (SortSlice example_env match_less [notes_a, main_go]) [notes_a, main_go]
   \<and> inj_on rank_key (set [main_go, notes_a])
   \<and> SortSlice example_env match_less [main_go, notes_a]
       = SortSlice example_env match_less [notes_a, main_go]"
proof -
  have m1: "mset [notes_a, notes_b] = mset [notes_b, notes_a]"
    by (simp add: add_mset_commute)
  have a1: "ascending [notes_a, notes_b] [notes_a, notes_b]"
    by (simp add: ascending_def match_less_def notes_a_def notes_b_def)
  have a2: "ascending [notes_b, notes_a] [notes_b, notes_a]"
    by (simp add: ascending_def match_less_def notes_a_def notes_b_def)
  have m2: "mset [main_go, notes_a] = mset [notes_a, main_go]"
    by (simp add: add_mset_commute)
  have s1: "SortSlice example_env match_less [main_go, notes_a] = [notes_a, main_go]"
    unfolding example_env_fields by code_simp
  have s2: "SortSlice example_env match_less [notes_a, main_go] = [notes_a, main_go]"
    unfolding example_env_fields by code_simp
  have a3: "ascending (SortSlice example_env match_less [main_go, notes_a]) [main_go, notes_a]"
    unfolding s1 by (simp add: ascending_def match_less_def notes_a_def main_go_def)
  have a4: "ascending (SortSlice example_env match_less [notes_a, main_go]) [notes_a, main_go]"
    unfolding s2 by (simp add: ascending_def match_less_def notes_a_def main_go_def)
  have i: "inj_on rank_key (set [main_go, notes_a])"
    by (simp add: rank_key_def notes_a_def main_go_def)
  have "map rank_key [notes_a, notes_b] = map rank_key [notes_b, notes_a]"
    using ranking_order_independent [OF m1 a1 a2] by blast
  moreover have "SortSlice example_env match_less [main_go, notes_a]
       = SortSlice example_env match_less [notes_a, main_go]"
    using ranking_order_independent [OF m2 a3 a4] i by blast
  ultimately show ?thesis using m1 a1 a2 m2 a3 a4 i by blast
qed

text \<open>
  Claim C2, as stated, fails: \<open>a/notes.txt\<close> and \<open>b/notes.txt\<close> both match the target
  \<open>notes.txt\<close> exactly at depth 1. On a slice of two elements \<open>sort.Slice\<close> is the
  insertion sort; \<open>less\<close> is false both ways, nothing is swapped, and each input order
  is returned as it came.
\<close>

theorem ranking_depends_on_input_order:
  "FindRecursiveMatches example_env ''.'' ''notes.txt'' 0 example_cfg = [notes_a, notes_b]
   \<and> mset [notes_a, notes_b] = mset [notes_b, notes_a]
   \<and> SortSlice example_env match_less [notes_a, notes_b] = [notes_a, notes_b]
   \<and> SortSlice example_env match_less [notes_b, notes_a] = [notes_b, notes_a]
   \<and> SortSlice example_env match_less [notes_a, notes_b]
       \<noteq> SortSlice example_env match_less [notes_b, notes_a]"
proof -
  have "notes_a \<noteq> notes_b"
    by (simp add: notes_a_def notes_b_def)
  then show ?thesis
    by (simp add: example_matches_notes example_env_fields example_sort_notes add_mset_commute)
qed

end
